theory Spec2Isabelle
  imports Complex_Main "HOL-Library.AList" "HOL-Library.Log_Nat"
begin

section \<open>Data model\<close>

text \<open>
  The engine is the class \<open>DemoResourceDistributorAgent\<close> of
  \<^verbatim>\<open>src/c42_resource_integration.tsx\<close>; the class \<open>ResourceDistributorAgent\<close> of
  \<^verbatim>\<open>src/resource_distributor_agent.tsx\<close> has the same \<open>calculateAllocations\<close>,
  \<open>calculateConfidence\<close> and the same ledger updates in \<open>executeAllocations\<close>.

  \<^item> A JavaScript number is a \<open>real\<close>; \<open>NaN\<close> and the infinities are not values. The
    arithmetic is modelled twice. The definitions without a suffix compute exactly. The
    definitions with the suffix \<open>_fl\<close> round the result of every operation to a double,
    as the source does; they are given for the computations whose claims depend on it.
  \<^item> A JavaScript object used as a dictionary and a \<open>Map\<close> are association lists in
    insertion order: \<open>map_of\<close> reads a key (\<open>None\<close> is \<open>undefined\<close>), \<open>AList.update\<close>
    assigns one (an existing key keeps its place, a new key goes last). The ids are names,
    not array indices, which an object would enumerate first.
  \<^item> The fields and collections of the agent are the record \<open>agent\<close>; a method takes the
    state and returns the new one. What the agent sends is appended to \<open>outbox\<close>.
    \<open>console.log\<close> is left out.
  \<^item> \<open>Date.now()\<close> reads the field \<open>now\<close>, which a handler does not advance.
  \<^item> A handler is one invocation, run to completion before the next one starts. The
    source suspends a handler at every \<open>await\<close>; an invocation that starts while another
    is suspended is not modelled. How many invocations one broadcast makes is the
    transport's matter: \<open>createMockSDK\<close> registers every subscribed handler twice, on
    \<open>message_<topic>\<close> and on \<open>agent_message\<close>.
  \<^item> The fields \<open>id\<close> and \<open>name\<close> of the profiles are \<open>donor_id\<close>, \<open>cause_id\<close> and
    \<open>cause_name\<close>; the fields of an event, an insight and a message content carry the
    prefixes \<open>e_\<close>, \<open>i_\<close>, \<open>o_\<close>, \<open>n_\<close> and \<open>p_\<close>.
\<close>

type_synonym row = "(string \<times> real) list"
type_synonym matrix = "(string \<times> row) list"

record DonorProfile =
  donor_id :: string
  wallet :: real
  preferences :: row
  allocationBudget :: real
  lastActivity :: real
  trustLevel :: real

record CauseProfile =
  cause_id :: string
  cause_name :: string
  need :: real
  priority :: real
  received :: real
  totalReceived :: real
  lastUpdate :: real

record AllocationEvent =
  e_timestamp :: real
  e_donorId :: string
  e_causeId :: string
  e_amount :: real
  e_confidence :: real
  e_reasoning :: string
  e_councilSynthesized :: bool

record Insight =
  i_agent :: string
  i_reasoning :: string
  i_recommendations :: matrix
  i_confidence :: real

text \<open>What the agent hands to the SDK (\<open>whisper\<close>, \<open>broadcast\<close>, \<open>convene\<close>) and to the
  timer, in the order of the calls.\<close>

datatype content =
    CapacityAcknowledged real
  | NeedAcknowledged real real
  | ResourceContext real matrix real "DonorProfile list" "CauseProfile list"
  | AllocationExecuted string string real real bool
  | FundingReceived string real real real
  | AllocationSummary real nat nat nat bool real

datatype effect =
    Whisper string content
  | Broadcast content
  | Convene string
  | SetTimeout_triggerSpecialistAgents matrix

record agent =
  donors :: "(string \<times> DonorProfile) list"
  causes :: "(string \<times> CauseProfile) list"
  allocationHistory :: "AllocationEvent list"
  isProcessing :: bool
  councilActive :: bool
  councilInsights :: "Insight list"
  outbox :: "effect list"
  now :: real

section \<open>JavaScript idioms\<close>

text \<open>\<open>x || 0\<close> on a number that may be \<open>undefined\<close>.\<close>

definition or0 :: "real option \<Rightarrow> real" where
  "or0 v = (case v of None \<Rightarrow> 0 | Some x \<Rightarrow> x)"

text \<open>Truthiness of a number that may be \<open>undefined\<close>: \<open>undefined\<close> and \<open>0\<close> are falsy.\<close>

definition truthy :: "real option \<Rightarrow> bool" where
  "truthy v = (case v of None \<Rightarrow> False | Some x \<Rightarrow> x \<noteq> 0)"

text \<open>An object that may be \<open>undefined\<close>, read as a dictionary (\<open>o && o[k]\<close>, or a
  destructuring default \<open>= {}\<close>).\<close>

definition or_empty :: "row option \<Rightarrow> row" where
  "or_empty v = (case v of None \<Rightarrow> [] | Some r \<Rightarrow> r)"

text \<open>A destructuring default, \<open>const { x = dflt } = content\<close>: it applies when the field is
  \<open>undefined\<close>.\<close>

definition orDefault :: "real \<Rightarrow> real option \<Rightarrow> real" where
  "orDefault dflt v = (case v of None \<Rightarrow> dflt | Some x \<Rightarrow> x)"

text \<open>\<open>{ ...a, ...b }\<close>\<close>

definition spread :: "row \<Rightarrow> row \<Rightarrow> row" where
  "spread a b = foldl (\<lambda>acc (k, v). AList.update k v acc) a b"

section \<open>Allocation Ledger\<close>

definition relevantCauses :: "DonorProfile \<Rightarrow> (string \<times> CauseProfile) list \<Rightarrow> CauseProfile list" where
  "relevantCauses donor cs =
     filter (\<lambda>cause. truthy (map_of (preferences donor) (cause_id cause)) \<and>
                      or0 (map_of (preferences donor) (cause_id cause)) > 0)
            (map snd cs)"

definition weightedScore :: "DonorProfile \<Rightarrow> CauseProfile \<Rightarrow> real" where
  "weightedScore donor cause =
     (let preferenceWeight = or0 (map_of (preferences donor) (cause_id cause));
          priorityWeight = priority cause;
          needWeight = min (need cause) (allocationBudget donor)
      in preferenceWeight * priorityWeight * needWeight)"

definition totalWeightedPriority :: "DonorProfile \<Rightarrow> CauseProfile list \<Rightarrow> real" where
  "totalWeightedPriority donor rel = foldl (\<lambda>sum cause. sum + weightedScore donor cause) 0 rel"

definition allocateCause :: "DonorProfile \<Rightarrow> real \<Rightarrow> row \<Rightarrow> CauseProfile \<Rightarrow> row" where
  "allocateCause donor totalWP r cause =
     (let proportion = weightedScore donor cause / totalWP;
          allocation = min (allocationBudget donor * proportion) (need cause - received cause)
      in if allocation > 0 then AList.update (cause_id cause) allocation r else r)"

definition donorRow :: "DonorProfile \<Rightarrow> (string \<times> CauseProfile) list \<Rightarrow> row" where
  "donorRow donor cs =
     (let rel = relevantCauses donor cs in
      if length rel = 0 then []
      else let totalWP = totalWeightedPriority donor rel in
           if totalWP \<le> 0 then [] else foldl (allocateCause donor totalWP) [] rel)"

text \<open>The callback of \<open>this.donors.forEach\<close>: a donor with a positive budget gets a row,
  empty when the callback returns early.\<close>

definition allocateDonor ::
  "(string \<times> CauseProfile) list \<Rightarrow> matrix \<Rightarrow> string \<times> DonorProfile \<Rightarrow> matrix" where
  "allocateDonor cs allocations p =
     (case p of (donorId, donor) \<Rightarrow>
        if allocationBudget donor \<le> 0 then allocations
        else AList.update donorId (donorRow donor cs) allocations)"

definition calculateAllocations :: "agent \<Rightarrow> matrix" where
  "calculateAllocations s = foldl (allocateDonor (causes s)) [] (donors s)"

definition causeReceived :: "matrix \<Rightarrow> CauseProfile \<Rightarrow> real" where
  "causeReceived allocations cause =
     foldl (\<lambda>sum donorAllocations. sum + or0 (map_of donorAllocations (cause_id cause)))
           0 (map snd allocations)"

definition needTotals :: "(string \<times> CauseProfile) list \<Rightarrow> matrix \<Rightarrow> real \<times> real" where
  "needTotals cs allocations =
     foldl (\<lambda>(totalNeed, totalMet) cause.
              (totalNeed + need cause, totalMet + min (causeReceived allocations cause) (need cause)))
           (0, 0) (map snd cs)"

definition calculateConfidence :: "agent \<Rightarrow> matrix \<Rightarrow> real" where
  "calculateConfidence s allocations =
     (let (totalNeed, totalMet) = needTotals (causes s) allocations
      in if totalNeed > 0 then totalMet / totalNeed else 1)"

definition totalAllocation :: "matrix \<Rightarrow> real" where
  "totalAllocation allocations =
     foldl (\<lambda>sum donorAllocations. sum + foldl (\<lambda>s amount. s + amount) 0 (map snd donorAllocations))
           0 (map snd allocations)"

definition detectMajorReallocation :: "matrix \<Rightarrow> bool" where
  "detectMajorReallocation allocations =
     list_ex (\<lambda>donorAllocations.
                list_ex (\<lambda>amount. amount > totalAllocation allocations * (3 / 10))
                        (map snd donorAllocations))
             (map snd allocations)"

section \<open>Council Synthesizer\<close>

definition recommendationsFor :: "Insight list \<Rightarrow> string \<Rightarrow> string \<Rightarrow> real list" where
  "recommendationsFor insights donorId causeId =
     map (\<lambda>insight. or0 (map_of (or_empty (map_of (i_recommendations insight) donorId)) causeId))
         (filter (\<lambda>insight.
                    (case map_of (i_recommendations insight) donorId of
                       None \<Rightarrow> False
                     | Some r \<Rightarrow> truthy (map_of r causeId)))
                 insights)"

definition synthesizeCell :: "Insight list \<Rightarrow> string \<Rightarrow> string \<Rightarrow> real \<Rightarrow> real" where
  "synthesizeCell insights donorId causeId originalAmount =
     (let recommendations = recommendationsFor insights donorId causeId in
      if length recommendations > 0 then
        let avgRecommendation = foldl (\<lambda>sum rec. sum + rec) 0 recommendations
                                / real (length recommendations)
        in (avgRecommendation * (7 / 10)) + (originalAmount * (3 / 10))
      else originalAmount)"

text \<open>\<open>synthesized\<close> is a fresh object filled key by key from the keys of \<open>proposed\<close>, which
  are distinct, so it has the entries of \<open>proposed\<close> in their order, each with its new value.\<close>

definition synthesizeCouncilDecision :: "matrix \<Rightarrow> Insight list \<Rightarrow> matrix" where
  "synthesizeCouncilDecision proposed insights =
     map (\<lambda>(donorId, r).
            (donorId, map (\<lambda>(causeId, originalAmount).
                             (causeId, synthesizeCell insights donorId causeId originalAmount)) r))
         proposed"

section \<open>Execution and Audit Unit\<close>

text \<open>The four assignments that move the funds (the same statements in both agents).\<close>

definition debit :: "real \<Rightarrow> DonorProfile \<Rightarrow> DonorProfile" where
  "debit amount donor =
     donor\<lparr>wallet := wallet donor - amount, allocationBudget := allocationBudget donor - amount\<rparr>"

definition credit :: "real \<Rightarrow> CauseProfile \<Rightarrow> CauseProfile" where
  "credit amount cause =
     cause\<lparr>received := received cause + amount, totalReceived := totalReceived cause + amount\<rparr>"

text \<open>
  The body of the inner loop after its guard, for the donor and cause records as they are
  when the pair is reached. The state is threaded together with the local list
  \<open>executedAllocations\<close>. \<open>allocations\<close> is the whole matrix being committed, which the
  confidence of every event is computed from.
\<close>

definition transfer ::
  "matrix \<Rightarrow> string \<Rightarrow> string \<Rightarrow> real \<Rightarrow> DonorProfile \<Rightarrow> CauseProfile
     \<Rightarrow> agent \<times> AllocationEvent list \<Rightarrow> agent \<times> AllocationEvent list" where
  "transfer allocations donorId causeId amount donor0 cause0 st =
     (case st of (s, executedAllocations) \<Rightarrow>
        let donor = debit amount donor0;
            cause = credit amount cause0;
            s1 = s\<lparr>donors := AList.update donorId donor (donors s),
                   causes := AList.update causeId cause (causes s)\<rparr>;
            event = \<lparr>e_timestamp = now s1, e_donorId = donorId, e_causeId = causeId,
                     e_amount = amount,
                     e_confidence = calculateConfidence s1 allocations,
                     e_reasoning = (if councilActive s1 then ''Council-synthesized allocation''
                                    else ''Allocated based on preference and priority''),
                     e_councilSynthesized = councilActive s1\<rparr>;
            s2 = s1\<lparr>allocationHistory := allocationHistory s1 @ [event]\<rparr>;
            s3 = s2\<lparr>outbox := outbox s2 @
                   [Whisper donorId
                      (AllocationExecuted causeId (cause_name cause) amount (wallet donor)
                         (councilActive s2)),
                    Whisper causeId
                      (FundingReceived donorId amount (totalReceived cause)
                         (max 0 (need cause - received cause)))]\<rparr>
        in (s3, executedAllocations @ [event]))"

text \<open>
  One pass of the inner loop. The source holds \<open>donor\<close> as a reference to the object stored
  in the map, fetched once per row; here the current record is read from the map at every
  pair and written back under the same key.
\<close>

definition executePair ::
  "matrix \<Rightarrow> string \<Rightarrow> agent \<times> AllocationEvent list \<Rightarrow> string \<times> real
     \<Rightarrow> agent \<times> AllocationEvent list" where
  "executePair allocations donorId st p =
     (case p of (causeId, amount) \<Rightarrow>
      (case map_of (donors (fst st)) donorId of
         None \<Rightarrow> st
       | Some donor0 \<Rightarrow>
         (case map_of (causes (fst st)) causeId of
            None \<Rightarrow> st
          | Some cause0 \<Rightarrow>
              if amount \<le> 0 then st
              else transfer allocations donorId causeId amount donor0 cause0 st)))"

fun executeRows ::
  "matrix \<Rightarrow> agent \<times> AllocationEvent list \<Rightarrow> matrix \<Rightarrow> agent \<times> AllocationEvent list" where
  "executeRows allocations st [] = st"
| "executeRows allocations st ((donorId, donorAllocations) # rest) =
     (case map_of (donors (fst st)) donorId of
        None \<Rightarrow> executeRows allocations st rest
      | Some donor \<Rightarrow>
          executeRows allocations (foldl (executePair allocations donorId) st donorAllocations) rest)"

definition resetReceived :: "agent \<Rightarrow> agent" where
  "resetReceived s = s\<lparr>causes := map (\<lambda>(k, cause). (k, cause\<lparr>received := 0\<rparr>)) (causes s)\<rparr>"

definition broadcastSummary :: "agent \<Rightarrow> AllocationEvent list \<Rightarrow> agent" where
  "broadcastSummary s executedAllocations =
     s\<lparr>outbox := outbox s @
         [Broadcast
            (AllocationSummary
               (foldl (\<lambda>sum event. sum + e_amount event) 0 executedAllocations)
               (length executedAllocations)
               (length (remdups (map e_donorId executedAllocations)))
               (length (remdups (map e_causeId executedAllocations)))
               (councilActive s)
               (now s))]\<rparr>"

text \<open>The state after the nested iteration over the batch and before \<open>received\<close> is reset: the moment of commit.\<close>

definition commitBatch :: "agent \<Rightarrow> matrix \<Rightarrow> agent \<times> AllocationEvent list" where
  "commitBatch s allocations = executeRows allocations (s, []) allocations"

definition executeAllocations :: "agent \<Rightarrow> matrix \<Rightarrow> agent" where
  "executeAllocations s allocations =
     (case commitBatch s allocations of
        (s1, executedAllocations) \<Rightarrow> broadcastSummary (resetReceived s1) executedAllocations)"

section \<open>Escalation Controller\<close>

text \<open>The council id is \<open>council_\<close> followed by \<open>Date.now()\<close>; the time stands for it.\<close>

definition conveneCouncil :: "agent \<Rightarrow> matrix \<Rightarrow> real \<Rightarrow> agent" where
  "conveneCouncil s allocations confidence =
     (let s1 = s\<lparr>councilActive := True, councilInsights := []\<rparr>;
          councilId = now s1
      in s1\<lparr>outbox := outbox s1 @
              [Convene ''resource_allocation_review'',
               Broadcast (ResourceContext councilId allocations confidence
                            (map snd (donors s1)) (map snd (causes s1))),
               SetTimeout_triggerSpecialistAgents allocations]\<rparr>)"

definition evaluateAllocations :: "agent \<Rightarrow> agent" where
  "evaluateAllocations s =
     (if isProcessing s \<or> length (donors s) = 0 \<or> length (causes s) = 0 then s
      else
        let s1 = s\<lparr>isProcessing := True\<rparr>;
            allocations = calculateAllocations s1;
            confidence = calculateConfidence s1 allocations;
            s2 = (if confidence < 7 / 10 \<or> detectMajorReallocation allocations
                  then conveneCouncil s1 allocations confidence
                  else executeAllocations s1 allocations)
        in s2\<lparr>isProcessing := False\<rparr>)"

section \<open>Message handlers\<close>

record CapacityOffer =
  o_donorId :: string
  o_wallet :: real
  o_allocationPercentage :: "real option"
  o_preferences :: "row option"

record NeedRegistration =
  n_causeId :: string
  n_name :: "string option"
  n_need :: real
  n_priority :: "real option"

record PreferenceUpdate =
  p_donorId :: string
  p_preferences :: row

definition offeredDonor :: "real \<Rightarrow> real \<Rightarrow> CapacityOffer \<Rightarrow> DonorProfile" where
  "offeredDonor t dflt msg =
     (let donorId = o_donorId msg;
          wallet0 = o_wallet msg;
          allocationPercentage = orDefault dflt (o_allocationPercentage msg);
          preferences0 = or_empty (o_preferences msg)
      in \<lparr>donor_id = donorId, wallet = wallet0, preferences = preferences0,
          allocationBudget = wallet0 * allocationPercentage,
          lastActivity = t, trustLevel = 75\<rparr>)"

text \<open>\<open>handleCapacityOffer\<close> up to and including \<open>this.donors.set(donorId, donor)\<close>.\<close>

definition storeOffer :: "agent \<Rightarrow> CapacityOffer \<Rightarrow> agent" where
  "storeOffer s msg =
     s\<lparr>donors := AList.update (o_donorId msg) (offeredDonor (now s) (15 / 100) msg) (donors s)\<rparr>"

text \<open>The acknowledgement reads \<open>donor.allocationBudget\<close> from the stored object after the
  evaluation, which may have debited it.\<close>

definition handleCapacityOffer :: "agent \<Rightarrow> CapacityOffer \<Rightarrow> agent" where
  "handleCapacityOffer s msg =
     (let s1 = storeOffer s msg;
          s2 = evaluateAllocations s1;
          donor = (case map_of (donors s2) (o_donorId msg) of
                     Some d \<Rightarrow> d
                   | None \<Rightarrow> offeredDonor (now s) (15 / 100) msg)
      in s2\<lparr>outbox := outbox s2 @
              [Whisper (o_donorId msg) (CapacityAcknowledged (allocationBudget donor))]\<rparr>)"

definition handleNeedRegistration :: "agent \<Rightarrow> NeedRegistration \<Rightarrow> agent" where
  "handleNeedRegistration s msg =
     (let causeId = n_causeId msg;
          priority0 = orDefault (6 / 10) (n_priority msg);
          cause = \<lparr>cause_id = causeId,
                   cause_name = (case n_name msg of
                                   None \<Rightarrow> causeId
                                 | Some x \<Rightarrow> if x = [] then causeId else x),
                   need = n_need msg,
                   priority = max 0 (min 1 priority0),
                   received = 0, totalReceived = 0, lastUpdate = now s\<rparr>;
          s1 = s\<lparr>causes := AList.update causeId cause (causes s)\<rparr>;
          s2 = evaluateAllocations s1
      in s2\<lparr>outbox := outbox s2 @ [Whisper causeId (NeedAcknowledged (n_need msg) priority0)]\<rparr>)"

definition handlePreferenceUpdate :: "agent \<Rightarrow> PreferenceUpdate \<Rightarrow> agent" where
  "handlePreferenceUpdate s msg =
     (case map_of (donors s) (p_donorId msg) of
        None \<Rightarrow> s
      | Some donor \<Rightarrow>
          evaluateAllocations
            (s\<lparr>donors := AList.update (p_donorId msg)
                            (donor\<lparr>preferences := spread (preferences donor) (p_preferences msg)\<rparr>)
                            (donors s)\<rparr>))"

text \<open>One invocation that no other invocation overlaps. In the source the last two
  assignments follow \<open>await this.executeAllocations(synthesized)\<close>: until the execution has
  finished the council is still active and the insights are still stored.\<close>

definition handleCouncilInsight :: "agent \<Rightarrow> Insight \<Rightarrow> agent" where
  "handleCouncilInsight s msg =
     (if \<not> councilActive s then s
      else
        let s1 = s\<lparr>councilInsights := councilInsights s @ [msg]\<rparr> in
        if length (councilInsights s1) \<ge> 3 then
          let allocations = calculateAllocations s1;
              synthesized = synthesizeCouncilDecision allocations (councilInsights s1);
              s2 = executeAllocations s1 synthesized
          in s2\<lparr>councilActive := False, councilInsights := []\<rparr>
        else s1)"

text \<open>The subscriptions of \<open>initialize\<close>: one handler per topic. \<open>deliver\<close> is one invocation of
  the handler of a topic, not one broadcast.\<close>

datatype message =
    Offer_capacity CapacityOffer
  | Register_need NeedRegistration
  | Preference_update PreferenceUpdate
  | Council_insight Insight

fun deliver :: "agent \<Rightarrow> message \<Rightarrow> agent" where
  "deliver s (Offer_capacity m) = handleCapacityOffer s m"
| "deliver s (Register_need m) = handleNeedRegistration s m"
| "deliver s (Preference_update m) = handlePreferenceUpdate s m"
| "deliver s (Council_insight m) = handleCouncilInsight s m"

text \<open>The agent as its constructor leaves it, at time \<open>t\<close>.\<close>

definition initial :: "real \<Rightarrow> agent" where
  "initial t = \<lparr>donors = [], causes = [], allocationHistory = [], isProcessing = False,
                councilActive = False, councilInsights = [], outbox = [], now = t\<rparr>"

subsection \<open>The capacity offer of \<open>ResourceDistributorAgent\<close>\<close>


section \<open>Double precision\<close>

text \<open>
  The source computes in IEEE 754 binary64, rounding to nearest with ties to even. \<open>fl x\<close> is
  the double nearest to the real \<open>x\<close>. In the normal range \<open>x\<close> is rounded to 53 significant
  bits at its binary exponent \<open>expo x\<close>, the integer \<open>e\<close> with \<open>2\<^sup>e \<le> \<bar>x\<bar> < 2\<^sup>e\<^sup>+\<^sup>1\<close>; below
  \<open>2\<^sup>-\<^sup>1\<^sup>0\<^sup>2\<^sup>2\<close> the exponent stays at \<open>-1022\<close> and \<open>x\<close> is rounded to a multiple of \<open>2\<^sup>-\<^sup>1\<^sup>0\<^sup>7\<^sup>4\<close>
  (gradual underflow). The model has no \<open>Infinity\<close>: for a result whose magnitude exceeds
  the largest double, which the source holds as \<open>Infinity\<close>, \<open>fl\<close> goes on rounding to 53
  bits. An arithmetic operation of the source is the exact operation followed by \<open>fl\<close>;
  \<open>Math.min\<close>, \<open>Math.max\<close> and the comparisons are exact; a decimal literal is \<open>fl\<close> of its
  value.
\<close>

definition rne :: "real \<Rightarrow> int" where
  "rne x = (let f = \<lfloor>x\<rfloor>; d = x - of_int f in
            if d < 1 / 2 then f else if 1 / 2 < d then f + 1 else if even f then f else f + 1)"

definition expo :: "real \<Rightarrow> int" where
  "expo x = (if 1 \<le> \<bar>x\<bar> then bitlen \<lfloor>\<bar>x\<bar>\<rfloor> - 1 else - bitlen (\<lceil>1 / \<bar>x\<bar>\<rceil> - 1))"

definition fl :: "real \<Rightarrow> real" where
  "fl x = (if x = 0 then 0
           else let q = 2 powi (max (expo x) (- 1022) - 52)
                in of_int (rne (x / q)) * q)"

subsection \<open>The proposal in doubles\<close>

text \<open>\<open>calculateAllocations\<close> operation by operation: \<open>p * r * w\<close> is two products, the
  total is summed from 0 by \<open>reduce\<close>, the share is a quotient and a product, the cap a
  difference.\<close>

definition weightedScore_fl :: "DonorProfile \<Rightarrow> CauseProfile \<Rightarrow> real" where
  "weightedScore_fl donor cause =
     (let preferenceWeight = or0 (map_of (preferences donor) (cause_id cause));
          priorityWeight = priority cause;
          needWeight = min (need cause) (allocationBudget donor)
      in fl (fl (preferenceWeight * priorityWeight) * needWeight))"

definition totalWeightedPriority_fl :: "DonorProfile \<Rightarrow> CauseProfile list \<Rightarrow> real" where
  "totalWeightedPriority_fl donor rel =
     foldl (\<lambda>sum cause. fl (sum + weightedScore_fl donor cause)) 0 rel"

definition allocateCause_fl :: "DonorProfile \<Rightarrow> real \<Rightarrow> row \<Rightarrow> CauseProfile \<Rightarrow> row" where
  "allocateCause_fl donor totalWP r cause =
     (let proportion = fl (weightedScore_fl donor cause / totalWP);
          allocation = min (fl (allocationBudget donor * proportion))
                           (fl (need cause - received cause))
      in if allocation > 0 then AList.update (cause_id cause) allocation r else r)"

definition donorRow_fl :: "DonorProfile \<Rightarrow> (string \<times> CauseProfile) list \<Rightarrow> row" where
  "donorRow_fl donor cs =
     (let rel = relevantCauses donor cs in
      if length rel = 0 then []
      else let totalWP = totalWeightedPriority_fl donor rel in
           if totalWP \<le> 0 then [] else foldl (allocateCause_fl donor totalWP) [] rel)"

definition allocateDonor_fl ::
  "(string \<times> CauseProfile) list \<Rightarrow> matrix \<Rightarrow> string \<times> DonorProfile \<Rightarrow> matrix" where
  "allocateDonor_fl cs allocations p =
     (case p of (donorId, donor) \<Rightarrow>
        if allocationBudget donor \<le> 0 then allocations
        else AList.update donorId (donorRow_fl donor cs) allocations)"

definition calculateAllocations_fl :: "agent \<Rightarrow> matrix" where
  "calculateAllocations_fl s = foldl (allocateDonor_fl (causes s)) [] (donors s)"

subsection \<open>The commit in doubles\<close>












section \<open>Specification vocabulary\<close>

text \<open>The predicates and quantities that the theorems are stated with.\<close>





definition positive_row :: "row \<Rightarrow> bool" where
  "positive_row r = list_all (\<lambda>(c, a). 0 < a) r"



definition nonneg_causes :: "(string \<times> CauseProfile) list \<Rightarrow> bool" where
  "nonneg_causes cs = list_all (\<lambda>(k, c). 0 \<le> need c \<and> 0 \<le> priority c) cs"

text \<open>What a matrix proposes for one donor in total, and the uncapped amount
  \<open>budget \<times> proportion\<close> of one cause.\<close>

definition rowTotal :: "matrix \<Rightarrow> string \<Rightarrow> real" where
  "rowTotal m donorId = (case map_of m donorId of None \<Rightarrow> 0 | Some r \<Rightarrow> sum_list (map snd r))"

definition share :: "DonorProfile \<Rightarrow> real \<Rightarrow> CauseProfile \<Rightarrow> real" where
  "share donor totalWP cause = allocationBudget donor * (weightedScore donor cause / totalWP)"



text \<open>The ledger maps of two states have the same keys in the same order.\<close>

definition same_keys :: "agent \<Rightarrow> agent \<Rightarrow> bool" where
  "same_keys s s' = (map fst (donors s') = map fst (donors s) \<and> map fst (causes s') = map fst (causes s))"


text \<open>What a commit leaves alone in a donor and in a cause.\<close>

definition donor_frame :: "DonorProfile \<Rightarrow> string \<times> real \<times> row \<times> real \<times> real" where
  "donor_frame d = (donor_id d, wallet d - allocationBudget d, preferences d, trustLevel d, lastActivity d)"

definition cause_frame :: "CauseProfile \<Rightarrow> string \<times> string \<times> real \<times> real \<times> real" where
  "cause_frame c = (cause_id c, cause_name c, need c, priority c, lastUpdate c)"

definition ledger_frame ::
  "agent \<Rightarrow> (string \<times> string \<times> real \<times> row \<times> real \<times> real) list
            \<times> (string \<times> string \<times> string \<times> real \<times> real \<times> real) list" where
  "ledger_frame s = (map (\<lambda>(k, d). (k, donor_frame d)) (donors s),
                     map (\<lambda>(k, c). (k, cause_frame c)) (causes s))"

text \<open>The ids that the ledger knows, and the batch without its stale pairs: the rows of
  unknown donors and the cells of unknown causes removed.\<close>

definition knownDonor :: "agent \<Rightarrow> string \<Rightarrow> bool" where
  "knownDonor s d = (map_of (donors s) d \<noteq> None)"

definition knownCause :: "agent \<Rightarrow> string \<Rightarrow> bool" where
  "knownCause s c = (map_of (causes s) c \<noteq> None)"

definition livePairs :: "agent \<Rightarrow> matrix \<Rightarrow> matrix" where
  "livePairs s m =
     map (\<lambda>(d, r). (d, filter (\<lambda>(c, a). knownCause s c) r))
         (filter (\<lambda>(d, r). knownDonor s d) m)"





text \<open>The keys of a \<open>Map\<close> are distinct.\<close>

definition distinct_keys :: "agent \<Rightarrow> bool" where
  "distinct_keys s = (distinct (map fst (donors s)) \<and> distinct (map fst (causes s)))"

text \<open>
  The blend as the specification words it: the recommendations for a cell are the values of
  the insights whose matrix has the cell (an insight that omits it abstains); with at least
  one, the result is 0.7 times their mean plus 0.3 times the original; with none, the
  original.
\<close>

definition cellOf :: "matrix \<Rightarrow> string \<Rightarrow> string \<Rightarrow> real option" where
  "cellOf m d c = (case map_of m d of None \<Rightarrow> None | Some r \<Rightarrow> map_of r c)"

definition recommended_spec :: "Insight list \<Rightarrow> string \<Rightarrow> string \<Rightarrow> real list" where
  "recommended_spec insights d c =
     concat (map (\<lambda>i. case cellOf (i_recommendations i) d c of None \<Rightarrow> [] | Some v \<Rightarrow> [v]) insights)"

definition blend_spec :: "Insight list \<Rightarrow> string \<Rightarrow> string \<Rightarrow> real \<Rightarrow> real" where
  "blend_spec insights d c orig =
     (let recs = recommended_spec insights d c in
      if recs = [] then orig
      else (7 / 10) * (sum_list recs / real (length recs)) + (3 / 10) * orig)"

definition synthesis_spec :: "matrix \<Rightarrow> Insight list \<Rightarrow> matrix" where
  "synthesis_spec proposed insights =
     map (\<lambda>(d, r). (d, map (\<lambda>(c, orig). (c, blend_spec insights d c orig)) r)) proposed"


text \<open>
  The rounding unit of a double, the smallest positive double and the largest double.
\<close>

definition ulp53 :: real where "ulp53 = 1 / 2 ^ 53"

definition denormMin :: real where "denormMin = 1 / 2 ^ 1074"


text \<open>
  The rounded share \<open>budget \<times> (score / total)\<close> of one cause; the factor by which \<open>n\<close> rounded
  summands of the total and the two operations of a share can raise the sum of a row above
  the budget; and what the two operations of each of \<open>n\<close> shares can add below the normal
  range, half of the smallest positive double for each.
\<close>

definition share_fl :: "DonorProfile \<Rightarrow> real \<Rightarrow> CauseProfile \<Rightarrow> real" where
  "share_fl donor totalWP cause =
     fl (allocationBudget donor * fl (weightedScore_fl donor cause / totalWP))"

definition roundingSlack :: "nat \<Rightarrow> real" where
  "roundingSlack n = (1 + ulp53)\<^sup>2 / (1 - ulp53) ^ n"

definition underflowSlack :: "nat \<Rightarrow> real \<Rightarrow> real" where
  "underflowSlack n b = real n * ((b * (1 + ulp53) + 1) * (denormMin / 2))"



section \<open>Example ledgers\<close>

definition alice :: DonorProfile where
  "alice = \<lparr>donor_id = ''alice'', wallet = 150, preferences = [(''climate'', 8 / 10)],
            allocationBudget = 30, lastActivity = 0, trustLevel = 75\<rparr>"

definition bob :: DonorProfile where
  "bob = \<lparr>donor_id = ''bob'', wallet = 100, preferences = [(''climate'', 1 / 2)],
          allocationBudget = 40, lastActivity = 0, trustLevel = 75\<rparr>"

definition climate :: CauseProfile where
  "climate = \<lparr>cause_id = ''climate'', cause_name = ''Climate Fund'', need = 45, priority = 9 / 10,
              received = 0, totalReceived = 0, lastUpdate = 0\<rparr>"

definition ledgerA :: agent where
  "ledgerA = (initial 0)\<lparr>donors := [(''alice'', alice)], causes := [(''climate'', climate)]\<rparr>"

definition ledgerAB :: agent where
  "ledgerAB = (initial 0)\<lparr>donors := [(''alice'', alice), (''bob'', bob)],
                          causes := [(''climate'', climate)]\<rparr>"




definition staleBatch :: matrix where
  "staleBatch = [(''alice'', [(''ghost'', 5), (''climate'', 10)]), (''zed'', [(''climate'', 7)])]"


definition advisor :: "string \<Rightarrow> real \<Rightarrow> Insight" where
  "advisor who v = \<lparr>i_agent = who, i_reasoning = ''review'',
                    i_recommendations = [(''alice'', [(''climate'', v)])], i_confidence = 85 / 100\<rparr>"



text \<open>A donor with the budget 1 and the weights 0.1, 0.4 and 0.1 for three causes that need
  1000 each; a donor with the wallet 0.5 and the budget 0.2, and a batch of 0.1 for it.\<close>

definition cause1000 :: "string \<Rightarrow> CauseProfile" where
  "cause1000 k = \<lparr>cause_id = k, cause_name = k, need = 1000, priority = 1,
                  received = 0, totalReceived = 0, lastUpdate = 0\<rparr>"

definition dora :: DonorProfile where
  "dora = \<lparr>donor_id = ''dora'', wallet = 10,
            preferences = [(''arts'', fl (1 / 10)), (''books'', fl (4 / 10)), (''clinic'', fl (1 / 10))],
            allocationBudget = 1, lastActivity = 0, trustLevel = 75\<rparr>"

definition ledgerR :: agent where
  "ledgerR = (initial 0)\<lparr>donors := [(''dora'', dora)],
                          causes := [(''arts'', cause1000 ''arts''), (''books'', cause1000 ''books''),
                                     (''clinic'', cause1000 ''clinic'')]\<rparr>"






section \<open>Evaluation of the examples\<close>

lemmas ledger_defs = alice_def bob_def climate_def ledgerA_def ledgerAB_def initial_def



section \<open>Sums and lookups\<close>

lemma foldl_add_sum_list: "foldl (\<lambda>acc x. acc + f x) a xs = (a::real) + sum_list (map f xs)"
  by (induction xs arbitrary: a) auto








lemma sum_update_le:
  "positive_row r \<Longrightarrow> sum_list (map snd (AList.update k v r)) \<le> sum_list (map snd r) + v"
  by (induction r) (auto simp: positive_row_def)

lemma positive_update:
  "positive_row r \<Longrightarrow> 0 < v \<Longrightarrow> positive_row (AList.update k v r)"
  by (induction r) (auto simp: positive_row_def)

lemma allocateCause_step:
  assumes "positive_row r" and "0 \<le> share donor T cause"
  shows "positive_row (allocateCause donor T r cause)"
    and "sum_list (map snd (allocateCause donor T r cause)) \<le> sum_list (map snd r) + share donor T cause"
proof -
  let ?a = "min (share donor T cause) (need cause - received cause)"
  have eq: "allocateCause donor T r cause = (if ?a > 0 then AList.update (cause_id cause) ?a r else r)"
    by (simp add: allocateCause_def share_def Let_def)
  show "positive_row (allocateCause donor T r cause)"
    using assms(1) by (simp add: eq positive_update)
  show "sum_list (map snd (allocateCause donor T r cause)) \<le> sum_list (map snd r) + share donor T cause"
  proof (cases "?a > 0")
    case True
    then have e: "allocateCause donor T r cause = AList.update (cause_id cause) ?a r"
      by (simp only: eq if_True)
    have "sum_list (map snd (AList.update (cause_id cause) ?a r)) \<le> sum_list (map snd r) + ?a"
      by (rule sum_update_le [OF assms(1)])
    also have "\<dots> \<le> sum_list (map snd r) + share donor T cause" by simp
    finally show ?thesis by (simp only: e)
  next
    case False
    then have e: "allocateCause donor T r cause = r"
      by (simp only: eq if_False)
    show ?thesis using assms(2) by (simp add: e)
  qed
qed

lemma allocate_fold:
  assumes "positive_row r" and "\<forall>c \<in> set rel. 0 \<le> share donor T c"
  shows "positive_row (foldl (allocateCause donor T) r rel) \<and>
         sum_list (map snd (foldl (allocateCause donor T) r rel))
           \<le> sum_list (map snd r) + sum_list (map (share donor T) rel)"
  using assms
proof (induction rel arbitrary: r)
  case Nil
  then show ?case by simp
next
  case (Cons c rel)
  have p: "positive_row (allocateCause donor T r c)"
    and le: "sum_list (map snd (allocateCause donor T r c)) \<le> sum_list (map snd r) + share donor T c"
    using allocateCause_step [of r donor T c] Cons.prems by simp_all
  from Cons.IH [OF p] Cons.prems(2)
  have "positive_row (foldl (allocateCause donor T) (allocateCause donor T r c) rel)"
    and "sum_list (map snd (foldl (allocateCause donor T) (allocateCause donor T r c) rel))
          \<le> sum_list (map snd (allocateCause donor T r c)) + sum_list (map (share donor T) rel)"
    by simp_all
  with le show ?case by simp
qed

lemma totalWeightedPriority_sum:
  "totalWeightedPriority donor rel = sum_list (map (weightedScore donor) rel)"
  by (simp add: totalWeightedPriority_def foldl_add_sum_list)

lemma shares_sum_gen:
  "sum_list (map (share donor T) rel) = allocationBudget donor * sum_list (map (weightedScore donor) rel) / T"
  by (induction rel) (simp_all add: share_def distrib_left add_divide_distrib)

lemma shares_sum:
  assumes "0 < T" and "T = sum_list (map (weightedScore donor) rel)"
  shows "sum_list (map (share donor T) rel) = allocationBudget donor"
  using assms by (simp add: shares_sum_gen)

lemma relevant_score_nonneg:
  assumes "nonneg_causes cs" and "0 < allocationBudget donor" and "c \<in> set (relevantCauses donor cs)"
  shows "0 \<le> weightedScore donor c"
proof -
  from assms(3) have pos: "0 < or0 (map_of (preferences donor) (cause_id c))"
    and mem: "c \<in> snd ` set cs"
    by (auto simp: relevantCauses_def)
  from mem assms(1) have "0 \<le> need c" "0 \<le> priority c"
    by (auto simp: nonneg_causes_def list_all_iff)
  with pos assms(2) show ?thesis
    by (simp add: weightedScore_def Let_def)
qed

lemma donorRow_within_budget:
  assumes cs: "nonneg_causes cs" and b: "0 < allocationBudget donor"
  shows "sum_list (map snd (donorRow donor cs)) \<le> allocationBudget donor"
proof -
  let ?rel = "relevantCauses donor cs"
  let ?T = "totalWeightedPriority donor ?rel"
  show ?thesis
  proof (cases "length ?rel = 0 \<or> ?T \<le> 0")
    case True
    then have "donorRow donor cs = []" by (auto simp: donorRow_def Let_def)
    with b show ?thesis by simp
  next
    case False
    then have T: "0 < ?T" and row: "donorRow donor cs = foldl (allocateCause donor ?T) [] ?rel"
      by (auto simp: donorRow_def Let_def)
    have nn: "\<forall>c \<in> set ?rel. 0 \<le> share donor ?T c"
      using relevant_score_nonneg [OF cs b] T b by (simp add: share_def)
    have "positive_row []" by (simp add: positive_row_def)
    from allocate_fold [OF this nn]
    have "sum_list (map snd (donorRow donor cs)) \<le> sum_list (map (share donor ?T) ?rel)"
      by (simp add: row)
    also have "\<dots> = allocationBudget donor"
      by (rule shares_sum [OF T totalWeightedPriority_sum])
    finally show ?thesis .
  qed
qed

lemma allocateDonor_fold_other:
  "k \<notin> fst ` set ds \<Longrightarrow> map_of (foldl (allocateDonor cs) acc ds) k = map_of acc k"
  by (induction ds arbitrary: acc) (auto simp: allocateDonor_def update_conv')

lemma allocateDonor_fold_mem:
  "distinct (map fst ds) \<Longrightarrow> (k, d) \<in> set ds \<Longrightarrow>
   map_of (foldl (allocateDonor cs) acc ds) k =
     (if allocationBudget d \<le> 0 then map_of acc k else Some (donorRow d cs))"
proof (induction ds arbitrary: acc)
  case Nil
  then show ?case by simp
next
  case (Cons p ds)
  show ?case
  proof (cases "p = (k, d)")
    case True
    with Cons.prems have "k \<notin> fst ` set ds" by auto
    then show ?thesis using True
      by (simp add: allocateDonor_fold_other) (simp add: allocateDonor_def update_conv')
  next
    case False
    with Cons.prems have mem: "(k, d) \<in> set ds" by auto
    then have "k \<in> fst ` set ds" by force
    with Cons.prems(1) have ne: "fst p \<noteq> k" by auto
    from Cons.prems have "distinct (map fst ds)" by simp
    from Cons.IH [OF this mem] ne show ?thesis
      by (cases p) (auto simp: allocateDonor_def update_conv')
  qed
qed

section \<open>Rounding to a double\<close>

lemma rne_error: "\<bar>of_int (rne x) - x\<bar> \<le> 1 / 2"
proof -
  have "of_int \<lfloor>x\<rfloor> \<le> x" "x < of_int \<lfloor>x\<rfloor> + 1" by linarith+
  then show ?thesis by (auto simp: rne_def Let_def)
qed

lemma rne_nonneg: "0 \<le> x \<Longrightarrow> 0 \<le> rne x"
  by (auto simp: rne_def Let_def)

lemma rne_of_int: "rne (of_int k) = k"
  by (simp add: rne_def Let_def)

lemma expo_bounds:
  assumes "x \<noteq> 0"
  shows "2 powi expo x \<le> \<bar>x\<bar>" and "\<bar>x\<bar> < 2 powi (expo x + 1)"
proof -
  have "2 powi expo x \<le> \<bar>x\<bar> \<and> \<bar>x\<bar> < 2 powi (expo x + 1)"
  proof (cases "1 \<le> \<bar>x\<bar>")
    case True
    let ?m = "\<lfloor>\<bar>x\<bar>\<rfloor>"
    from True have m: "0 < ?m" by simp
    let ?k = "bitlen ?m"
    from bitlen_bounds [OF m] have b: "2 ^ nat (?k - 1) \<le> ?m" "?m < 2 ^ nat ?k" by blast+
    have k1: "1 \<le> ?k" using m by (simp add: bitlen_alt_def)
    have e: "expo x = ?k - 1" using True by (simp add: expo_def)
    have p1: "(2::real) powi (?k - 1) = 2 ^ nat (?k - 1)" and p2: "(2::real) powi ?k = 2 ^ nat ?k"
      using k1 by (simp_all add: power_int_nonneg_exp)
    have "(2::real) ^ nat (?k - 1) \<le> of_int ?m"
      using b(1) by (simp only: numeral_power_le_of_int_cancel_iff)
    moreover have "of_int ?m \<le> \<bar>x\<bar>" by simp
    ultimately have lo: "2 powi (?k - 1) \<le> \<bar>x\<bar>" unfolding p1 by (rule order_trans)
    from b(2) have "?m + 1 \<le> 2 ^ nat ?k" by simp
    then have "of_int (?m + 1) \<le> (2::real) ^ nat ?k"
      by (simp only: of_int_le_numeral_power_cancel_iff)
    moreover have "\<bar>x\<bar> < of_int (?m + 1)" by (simp; linarith)
    ultimately have hi: "\<bar>x\<bar> < 2 powi ?k" unfolding p2 by (rule less_le_trans [rotated])
    from lo hi e show ?thesis by simp
  next
    case False
    let ?y = "1 / \<bar>x\<bar>"
    let ?n = "\<lceil>?y\<rceil>"
    from False assms have x: "0 < \<bar>x\<bar>" "\<bar>x\<bar> < 1" by simp_all
    then have y: "1 < ?y" by simp
    then have n: "0 < ?n - 1" by linarith
    let ?k = "bitlen (?n - 1)"
    from bitlen_bounds [OF n] have b: "2 ^ nat (?k - 1) \<le> ?n - 1" "?n - 1 < 2 ^ nat ?k" by blast+
    have k1: "1 \<le> ?k" using n by (simp add: bitlen_alt_def)
    have e: "expo x = - ?k" using False by (simp add: expo_def)
    from b(2) have "?n \<le> 2 ^ nat ?k" by simp
    then have "of_int ?n \<le> (2::real) ^ nat ?k" by simp
    moreover have "?y \<le> of_int ?n" by linarith
    ultimately have "?y \<le> 2 ^ nat ?k" by (rule order_trans [rotated])
    then have "1 \<le> 2 ^ nat ?k * \<bar>x\<bar>" using x(1) by (simp add: field_simps)
    then have "1 / 2 ^ nat ?k \<le> \<bar>x\<bar>" by (simp add: field_simps)
    moreover have "(2::real) powi (- ?k) = 1 / 2 ^ nat ?k"
      using k1 by (simp add: power_int_minus power_int_nonneg_exp field_simps)
    ultimately have lo: "2 powi (- ?k) \<le> \<bar>x\<bar>" by simp
    have "(2::real) ^ nat (?k - 1) \<le> of_int (?n - 1)"
      using b(1) by (simp only: numeral_power_le_of_int_cancel_iff)
    moreover have "of_int (?n - 1) < ?y" by (simp; linarith)
    ultimately have "2 ^ nat (?k - 1) < ?y" by (rule le_less_trans)
    then have "2 ^ nat (?k - 1) * \<bar>x\<bar> < 1" using x(1) by (simp add: field_simps)
    then have "\<bar>x\<bar> < 1 / 2 ^ nat (?k - 1)" by (simp add: field_simps)
    moreover have "(2::real) powi (- ?k + 1) = 1 / 2 ^ nat (?k - 1)"
    proof -
      have "- ?k + 1 = - (?k - 1)" by simp
      then have "(2::real) powi (- ?k + 1) = inverse (2 powi (?k - 1))"
        by (simp only: power_int_minus)
      also have "\<dots> = 1 / 2 ^ nat (?k - 1)"
        using k1 by (simp add: power_int_nonneg_exp field_simps)
      finally show ?thesis .
    qed
    ultimately have hi: "\<bar>x\<bar> < 2 powi (- ?k + 1)" by simp
    from lo hi e show ?thesis by simp
  qed
  then show "2 powi expo x \<le> \<bar>x\<bar>" and "\<bar>x\<bar> < 2 powi (expo x + 1)" by simp_all
qed

lemma fl_zero: "fl 0 = 0"
  by (simp add: fl_def)

lemma ulp53_bounds: "0 < ulp53" "ulp53 < 1"
  by (simp_all add: ulp53_def)

lemma denormMin_pos: "0 < denormMin"
  by (simp add: denormMin_def)

lemma denormMin_powi: "(2::real) powi (- 1074) = denormMin"
  by (simp add: denormMin_def power_int_minus field_simps)

text \<open>A rounding in the normal range has a relative error of at most \<open>2\<^sup>-\<^sup>5\<^sup>3\<close>.\<close>

lemma fl_error_normal:
  assumes "x \<noteq> 0" and "- 1022 \<le> expo x"
  shows "\<bar>fl x - x\<bar> \<le> \<bar>x\<bar> * ulp53"
proof -
  let ?q = "(2::real) powi (expo x - 52)"
  have q: "0 < ?q" by (simp add: zero_less_power_int)
  have f: "fl x = of_int (rne (x / ?q)) * ?q"
    using assms by (simp add: fl_def Let_def max_def)
  have "fl x - x = (of_int (rne (x / ?q)) - x / ?q) * ?q"
    using q by (simp add: f field_simps)
  then have "\<bar>fl x - x\<bar> = \<bar>of_int (rne (x / ?q)) - x / ?q\<bar> * ?q"
    using q by (simp add: abs_mult)
  also have "\<dots> \<le> (1 / 2) * ?q"
    using rne_error [of "x / ?q"] q by (intro mult_right_mono) simp_all
  also have "(1 / 2) * ?q = 2 powi expo x * ulp53"
  proof -
    have "?q = 2 powi expo x * 2 powi (- 52)"
      by (simp add: power_int_diff power_int_minus field_simps)
    then show ?thesis by (simp add: ulp53_def power_int_minus field_simps)
  qed
  also have "\<dots> \<le> \<bar>x\<bar> * ulp53"
    using expo_bounds(1) [OF assms(1)] by (intro mult_right_mono) (simp_all add: ulp53_def)
  finally show ?thesis .
qed

text \<open>Below the normal range the doubles are the multiples of \<open>2\<^sup>-\<^sup>1\<^sup>0\<^sup>7\<^sup>4\<close>.\<close>

lemma fl_subnormal:
  assumes "x \<noteq> 0" and "expo x < - 1022"
  shows "fl x = of_int (rne (x / denormMin)) * denormMin"
proof -
  from assms(2) have "max (expo x) (- 1022) - 52 = - 1074" by simp
  then have "fl x = of_int (rne (x / 2 powi (- 1074))) * 2 powi (- 1074)"
    using assms(1) by (simp only: fl_def Let_def if_False)
  then show ?thesis by (simp only: denormMin_powi)
qed

lemma fl_error_subnormal:
  assumes "x \<noteq> 0" and "expo x < - 1022"
  shows "\<bar>fl x - x\<bar> \<le> denormMin / 2"
proof -
  let ?q = denormMin
  have q: "0 < ?q" by (rule denormMin_pos)
  have "fl x - x = (of_int (rne (x / ?q)) - x / ?q) * ?q"
    using q by (simp add: fl_subnormal [OF assms] field_simps)
  then have "\<bar>fl x - x\<bar> = \<bar>of_int (rne (x / ?q)) - x / ?q\<bar> * ?q"
    using q by (simp add: abs_mult)
  also have "\<dots> \<le> (1 / 2) * ?q"
    using rne_error [of "x / ?q"] q by (intro mult_right_mono) simp_all
  finally show ?thesis by simp
qed

lemma fl_error: "\<bar>fl x - x\<bar> \<le> \<bar>x\<bar> * ulp53 + denormMin / 2"
proof (cases "x = 0")
  case True
  then show ?thesis using denormMin_pos by (simp add: fl_def)
next
  case False
  show ?thesis
  proof (cases "- 1022 \<le> expo x")
    case True
    from fl_error_normal [OF False True] denormMin_pos show ?thesis by linarith
  next
    case e: False
    then have "expo x < - 1022" by simp
    from fl_error_subnormal [OF False this] have "\<bar>fl x - x\<bar> \<le> denormMin / 2" .
    moreover have "0 \<le> \<bar>x\<bar> * ulp53" using ulp53_bounds by simp
    ultimately show ?thesis by linarith
  qed
qed

lemma fl_nonneg: "0 \<le> x \<Longrightarrow> 0 \<le> fl x"
  by (simp add: fl_def Let_def rne_nonneg zero_le_power_int)

lemma fl_upper: "0 \<le> x \<Longrightarrow> fl x \<le> x * (1 + ulp53) + denormMin / 2"
  using fl_error [of x] by (simp add: algebra_simps abs_if split: if_splits)

text \<open>Every double is a multiple of \<open>2\<^sup>-\<^sup>1\<^sup>0\<^sup>7\<^sup>4\<close>.\<close>

lemma fl_grid: "\<exists>k::int. fl x = of_int k * denormMin"
proof (cases "x = 0")
  case True
  then have "fl x = of_int 0 * denormMin" by (simp add: fl_def)
  then show ?thesis by blast
next
  case False
  define e where "e = max (expo x) (- 1022) - 52"
  define n where "n = nat (e + 1074)"
  have e: "0 \<le> e + 1074" by (simp add: e_def)
  have "(2::real) powi ((e + 1074) + (- 1074)) = 2 powi (e + 1074) * 2 powi (- 1074)"
    by (rule power_int_add) simp
  moreover have "(e + 1074) + (- 1074) = e" by simp
  moreover have "(2::real) powi (e + 1074) = 2 ^ n"
    using e unfolding n_def by (rule power_int_nonneg_exp)
  ultimately have q: "(2::real) powi e = 2 ^ n * denormMin"
    by (simp only: denormMin_powi)
  have "fl x = of_int (rne (x / 2 powi e)) * 2 powi e"
    using False by (simp add: fl_def Let_def e_def)
  also have "\<dots> = of_int (rne (x / 2 powi e) * 2 ^ n) * denormMin"
    by (simp only: q) simp
  finally show ?thesis by blast
qed

text \<open>A sum of two doubles is rounded with a relative error also below the normal range,
  where it is a double itself.\<close>

lemma fl_add_error:
  assumes "x = of_int k * denormMin" and "y = of_int l * denormMin"
  shows "\<bar>fl (x + y) - (x + y)\<bar> \<le> \<bar>x + y\<bar> * ulp53"
proof (cases "x + y = 0")
  case True
  then show ?thesis by (simp add: fl_def)
next
  case False
  show ?thesis
  proof (cases "- 1022 \<le> expo (x + y)")
    case True
    from fl_error_normal [OF False True] show ?thesis .
  next
    case e: False
    then have lt: "expo (x + y) < - 1022" by simp
    have s: "(x + y) / denormMin = of_int (k + l)"
      using denormMin_pos by (simp add: assms field_simps)
    have "fl (x + y) = of_int (k + l) * denormMin"
      by (simp only: fl_subnormal [OF False lt] s rne_of_int)
    also have "\<dots> = x + y" by (simp add: assms field_simps)
    finally show ?thesis using ulp53_bounds by simp
  qed
qed

lemma fl_add_lower:
  assumes "x = of_int k * denormMin" and "y = of_int l * denormMin" and "0 \<le> x + y"
  shows "(x + y) * (1 - ulp53) \<le> fl (x + y)"
  using fl_add_error [OF assms(1,2)] assms(3)
  by (simp add: algebra_simps abs_if split: if_splits)


text \<open>Evaluation of \<open>fl\<close> at a numeral.\<close>

lemma bitlen_numeral_step: "bitlen (numeral n) = bitlen (numeral n div 2) + 1"
  by (subst compute_bitlen) simp

lemma bitlen_one: "bitlen 1 = 1"
  by (subst compute_bitlen) simp

lemmas fl_eval = fl_def expo_def rne_def Let_def bitlen_numeral_step bitlen_one

lemmas allocation_fl_defs = calculateAllocations_fl_def allocateDonor_fl_def donorRow_fl_def
  relevantCauses_def truthy_def or0_def totalWeightedPriority_fl_def weightedScore_fl_def
  allocateCause_fl_def


section \<open>Allocation Ledger: proposals and confidence\<close>

text \<open>In exact arithmetic the amounts proposed for a donor add up to at most the budget.\<close>

lemma calculateAllocations_within_budget_exact:
  assumes "distinct (map fst (donors s))"
      and "nonneg_causes (causes s)"
      and "list_all (\<lambda>(k, d). 0 \<le> allocationBudget d) (donors s)"
      and "(k, donor) \<in> set (donors s)"
  shows "rowTotal (calculateAllocations s) k \<le> allocationBudget donor"
proof -
  have row: "map_of (calculateAllocations s) k =
        (if allocationBudget donor \<le> 0 then None else Some (donorRow donor (causes s)))"
    using allocateDonor_fold_mem [OF assms(1) assms(4), of "causes s" "[]"]
    by (simp add: calculateAllocations_def)
  from assms(3,4) have b0: "0 \<le> allocationBudget donor"
    by (auto simp: list_all_iff)
  show ?thesis
  proof (cases "allocationBudget donor \<le> 0")
    case True
    with row b0 show ?thesis by (simp add: rowTotal_def)
  next
    case False
    then have "0 < allocationBudget donor" by simp
    from donorRow_within_budget [OF assms(2) this] row False
    show ?thesis by (simp add: rowTotal_def)
  qed
qed

subsection \<open>The proposal in doubles\<close>

lemma weightedScore_fl_grid: "\<exists>k::int. weightedScore_fl donor c = of_int k * denormMin"
  by (simp only: weightedScore_fl_def Let_def fl_grid)

lemma relevant_score_fl_nonneg:
  assumes "nonneg_causes cs" and "0 < allocationBudget donor" and "c \<in> set (relevantCauses donor cs)"
  shows "0 \<le> weightedScore_fl donor c"
proof -
  from assms(3) have pos: "0 < or0 (map_of (preferences donor) (cause_id c))"
    and mem: "c \<in> snd ` set cs"
    by (auto simp: relevantCauses_def)
  from mem assms(1) have "0 \<le> need c" "0 \<le> priority c"
    by (auto simp: nonneg_causes_def list_all_iff)
  with pos assms(2) show ?thesis
    by (simp add: weightedScore_fl_def Let_def fl_nonneg)
qed

lemma fl_sum_lower:
  assumes "0 \<le> acc" and "\<exists>k::int. acc = of_int k * denormMin"
      and "\<forall>c \<in> set xs. 0 \<le> f c" and "\<forall>c. \<exists>k::int. f c = of_int k * denormMin"
  shows "(1 - ulp53) ^ length xs * (acc + sum_list (map f xs))
           \<le> foldl (\<lambda>sum c. fl (sum + f c)) acc xs"
  using assms(1,2,3)
proof (induction xs arbitrary: acc)
  case Nil
  then show ?case by simp
next
  case (Cons c xs)
  let ?u = "1 - ulp53"
  let ?acc' = "fl (acc + f c)"
  have u: "0 \<le> ?u" "?u \<le> 1" using ulp53_bounds by simp_all
  from Cons.prems have fc: "0 \<le> f c" and rest: "\<forall>c \<in> set xs. 0 \<le> f c" by simp_all
  have s0: "0 \<le> sum_list (map f xs)" using rest by (intro sum_list_nonneg) auto
  have a0: "0 \<le> acc + f c" using Cons.prems(1) fc by simp
  from Cons.prems(2) obtain k :: int where k: "acc = of_int k * denormMin" by blast
  from assms(4) obtain l :: int where l: "f c = of_int l * denormMin" by blast
  have acc': "(acc + f c) * ?u \<le> ?acc'" by (rule fl_add_lower [OF k l a0])
  have acc'0: "0 \<le> ?acc'" by (rule fl_nonneg [OF a0])
  have acc'g: "\<exists>k::int. ?acc' = of_int k * denormMin" by (rule fl_grid)
  have pn: "0 \<le> ?u ^ length xs" using u by simp
  have "?u ^ length (c # xs) * (acc + sum_list (map f (c # xs)))
          = ?u ^ length xs * ((acc + f c) * ?u + sum_list (map f xs) * ?u)"
    by (simp add: algebra_simps)
  also have "\<dots> \<le> ?u ^ length xs * (?acc' + sum_list (map f xs))"
  proof (rule mult_left_mono [OF _ pn])
    have "sum_list (map f xs) * ?u \<le> sum_list (map f xs)"
      using s0 u by (simp add: mult_left_le)
    with acc' show "(acc + f c) * ?u + sum_list (map f xs) * ?u \<le> ?acc' + sum_list (map f xs)"
      by linarith
  qed
  also have "\<dots> \<le> foldl (\<lambda>sum c. fl (sum + f c)) ?acc' xs"
    by (rule Cons.IH [OF acc'0 acc'g rest])
  finally show ?case by simp
qed

lemma share_fl_upper:
  assumes "0 < T" and "0 \<le> weightedScore_fl donor c" and "0 < allocationBudget donor"
  shows "0 \<le> share_fl donor T c"
    and "share_fl donor T c
           \<le> allocationBudget donor * (weightedScore_fl donor c / T) * (1 + ulp53)\<^sup>2
               + (allocationBudget donor * (1 + ulp53) + 1) * (denormMin / 2)"
proof -
  let ?b = "allocationBudget donor"
  let ?r = "weightedScore_fl donor c / T"
  let ?d = "denormMin / 2"
  have r0: "0 \<le> ?r" using assms by simp
  have p0: "0 \<le> fl ?r" by (rule fl_nonneg [OF r0])
  have p1: "fl ?r \<le> ?r * (1 + ulp53) + ?d" by (rule fl_upper [OF r0])
  have bp0: "0 \<le> ?b * fl ?r" using assms(3) p0 by simp
  show "0 \<le> share_fl donor T c" unfolding share_fl_def by (rule fl_nonneg [OF bp0])
  have "share_fl donor T c \<le> (?b * fl ?r) * (1 + ulp53) + ?d"
    unfolding share_fl_def by (rule fl_upper [OF bp0])
  also have "\<dots> \<le> (?b * (?r * (1 + ulp53) + ?d)) * (1 + ulp53) + ?d"
    using p1 assms(3) ulp53_bounds
    by (intro add_right_mono mult_right_mono mult_left_mono) simp_all
  also have "\<dots> = ?b * ?r * (1 + ulp53)\<^sup>2 + (?b * (1 + ulp53) + 1) * ?d"
  proof -
    have "(B * (r * (1 + ulp53) + d)) * (1 + ulp53) + d
            = B * r * (1 + ulp53)\<^sup>2 + (B * (1 + ulp53) + 1) * d" for B r d :: real
      by (simp add: power2_eq_square algebra_simps)
    then show ?thesis .
  qed
  finally show "share_fl donor T c \<le> ?b * ?r * (1 + ulp53)\<^sup>2 + (?b * (1 + ulp53) + 1) * ?d" .
qed

lemma allocateCause_fl_step:
  assumes "positive_row r" and "0 \<le> share_fl donor T cause"
  shows "positive_row (allocateCause_fl donor T r cause)"
    and "sum_list (map snd (allocateCause_fl donor T r cause))
           \<le> sum_list (map snd r) + share_fl donor T cause"
proof -
  let ?a = "min (share_fl donor T cause) (fl (need cause - received cause))"
  have eq: "allocateCause_fl donor T r cause
              = (if ?a > 0 then AList.update (cause_id cause) ?a r else r)"
    by (simp add: allocateCause_fl_def share_fl_def Let_def)
  show "positive_row (allocateCause_fl donor T r cause)"
    using assms(1) by (simp add: eq positive_update)
  show "sum_list (map snd (allocateCause_fl donor T r cause))
          \<le> sum_list (map snd r) + share_fl donor T cause"
  proof (cases "?a > 0")
    case True
    then have e: "allocateCause_fl donor T r cause = AList.update (cause_id cause) ?a r"
      by (simp only: eq if_True)
    have "sum_list (map snd (AList.update (cause_id cause) ?a r)) \<le> sum_list (map snd r) + ?a"
      by (rule sum_update_le [OF assms(1)])
    also have "\<dots> \<le> sum_list (map snd r) + share_fl donor T cause" by simp
    finally show ?thesis by (simp only: e)
  next
    case False
    then have e: "allocateCause_fl donor T r cause = r"
      by (simp only: eq if_False)
    show ?thesis using assms(2) by (simp add: e)
  qed
qed

lemma allocate_fl_fold:
  assumes "positive_row r" and "\<forall>c \<in> set rel. 0 \<le> share_fl donor T c"
  shows "positive_row (foldl (allocateCause_fl donor T) r rel) \<and>
         sum_list (map snd (foldl (allocateCause_fl donor T) r rel))
           \<le> sum_list (map snd r) + sum_list (map (share_fl donor T) rel)"
  using assms
proof (induction rel arbitrary: r)
  case Nil
  then show ?case by simp
next
  case (Cons c rel)
  have p: "positive_row (allocateCause_fl donor T r c)"
    and le: "sum_list (map snd (allocateCause_fl donor T r c))
               \<le> sum_list (map snd r) + share_fl donor T c"
    using allocateCause_fl_step [of r donor T c] Cons.prems by simp_all
  from Cons.IH [OF p] Cons.prems(2)
  have "sum_list (map snd (foldl (allocateCause_fl donor T) (allocateCause_fl donor T r c) rel))
          \<le> sum_list (map snd (allocateCause_fl donor T r c)) + sum_list (map (share_fl donor T) rel)"
    and "positive_row (foldl (allocateCause_fl donor T) (allocateCause_fl donor T r c) rel)"
    by simp_all
  with le show ?case by simp
qed

lemma donorRow_fl_bound:
  assumes cs: "nonneg_causes cs" and b: "0 < allocationBudget donor"
  shows "sum_list (map snd (donorRow_fl donor cs))
           \<le> allocationBudget donor * roundingSlack (length (relevantCauses donor cs))
               + underflowSlack (length (relevantCauses donor cs)) (allocationBudget donor)"
proof -
  let ?rel = "relevantCauses donor cs"
  let ?T = "totalWeightedPriority_fl donor ?rel"
  let ?b = "allocationBudget donor"
  let ?n = "length ?rel"
  let ?K = "(?b * (1 + ulp53) + 1) * (denormMin / 2)"
  have u: "0 < 1 - ulp53" "0 < (1 - ulp53) ^ ?n" using ulp53_bounds by simp_all
  have K0: "0 \<le> ?K" using b ulp53_bounds denormMin_pos by simp
  have uf0: "0 \<le> underflowSlack ?n ?b" using K0 by (simp add: underflowSlack_def)
  have slack: "1 \<le> roundingSlack ?n"
  proof -
    have "(1 - ulp53) ^ ?n \<le> 1" using ulp53_bounds by (intro power_le_one) simp_all
    moreover have "1 \<le> (1 + ulp53)\<^sup>2" using ulp53_bounds by (simp add: power2_eq_square algebra_simps)
    ultimately show ?thesis using u(2) by (simp add: roundingSlack_def field_simps)
  qed
  show ?thesis
  proof (cases "?n = 0 \<or> ?T \<le> 0")
    case True
    then have "donorRow_fl donor cs = []" by (auto simp: donorRow_fl_def Let_def)
    moreover have "0 \<le> ?b * roundingSlack ?n" using b slack by simp
    ultimately show ?thesis using uf0 by simp
  next
    case False
    then have T: "0 < ?T" and row: "donorRow_fl donor cs = foldl (allocateCause_fl donor ?T) [] ?rel"
      by (auto simp: donorRow_fl_def Let_def)
    have ws: "\<forall>c \<in> set ?rel. 0 \<le> weightedScore_fl donor c"
      using relevant_score_fl_nonneg [OF cs b] by blast
    let ?S = "sum_list (map (weightedScore_fl donor) ?rel)"
    have S0: "0 \<le> ?S" using ws by (intro sum_list_nonneg) auto
    have g0: "\<exists>k::int. (0::real) = of_int k * denormMin" by (rule exI [of _ 0]) simp
    have "(1 - ulp53) ^ ?n * (0 + ?S) \<le> foldl (\<lambda>sum c. fl (sum + weightedScore_fl donor c)) 0 ?rel"
      by (rule fl_sum_lower [OF _ g0 ws]) (simp_all add: weightedScore_fl_grid)
    then have TS: "(1 - ulp53) ^ ?n * ?S \<le> ?T"
      by (simp add: totalWeightedPriority_fl_def)
    have nn: "\<forall>c \<in> set ?rel. 0 \<le> share_fl donor ?T c"
      using share_fl_upper(1) [OF T _ b] ws by blast
    have "positive_row []" by (simp add: positive_row_def)
    from allocate_fl_fold [OF this nn]
    have "sum_list (map snd (donorRow_fl donor cs)) \<le> sum_list (map (share_fl donor ?T) ?rel)"
      by (simp add: row)
    also have "\<dots> \<le> sum_list (map (\<lambda>c. ?b * (weightedScore_fl donor c / ?T) * (1 + ulp53)\<^sup>2 + ?K) ?rel)"
      using share_fl_upper(2) [OF T _ b] ws by (intro sum_list_mono) blast
    also have "\<dots> = ?b * (1 + ulp53)\<^sup>2 * (?S / ?T) + underflowSlack ?n ?b"
    proof -
      have "sum_list (map (\<lambda>c. ?b * (weightedScore_fl donor c / ?T) * (1 + ulp53)\<^sup>2 + ?K) xs)
              = ?b * (1 + ulp53)\<^sup>2 * (sum_list (map (weightedScore_fl donor) xs) / ?T)
                  + real (length xs) * ?K" for xs
        by (induction xs) (simp_all add: algebra_simps add_divide_distrib)
      then show ?thesis by (simp only: underflowSlack_def)
    qed
    also have "\<dots> \<le> ?b * (1 + ulp53)\<^sup>2 * (1 / (1 - ulp53) ^ ?n) + underflowSlack ?n ?b"
    proof (rule add_right_mono, rule mult_left_mono)
      have "?S \<le> ?T / (1 - ulp53) ^ ?n" using TS u(2) by (simp add: field_simps)
      then show "?S / ?T \<le> 1 / (1 - ulp53) ^ ?n" using T u(2) by (simp add: field_simps)
      show "0 \<le> ?b * (1 + ulp53)\<^sup>2" using b by simp
    qed
    also have "\<dots> = ?b * roundingSlack ?n + underflowSlack ?n ?b" by (simp add: roundingSlack_def)
    finally show ?thesis .
  qed
qed

lemma allocateDonor_fl_fold_other:
  "k \<notin> fst ` set ds \<Longrightarrow> map_of (foldl (allocateDonor_fl cs) acc ds) k = map_of acc k"
  by (induction ds arbitrary: acc) (auto simp: allocateDonor_fl_def update_conv')

lemma allocateDonor_fl_fold_mem:
  "distinct (map fst ds) \<Longrightarrow> (k, d) \<in> set ds \<Longrightarrow>
   map_of (foldl (allocateDonor_fl cs) acc ds) k =
     (if allocationBudget d \<le> 0 then map_of acc k else Some (donorRow_fl d cs))"
proof (induction ds arbitrary: acc)
  case Nil
  then show ?case by simp
next
  case (Cons p ds)
  show ?case
  proof (cases "p = (k, d)")
    case True
    with Cons.prems have "k \<notin> fst ` set ds" by auto
    then show ?thesis using True
      by (simp add: allocateDonor_fl_fold_other) (simp add: allocateDonor_fl_def update_conv')
  next
    case False
    with Cons.prems have mem: "(k, d) \<in> set ds" by auto
    then have "k \<in> fst ` set ds" by force
    with Cons.prems(1) have ne: "fst p \<noteq> k" by auto
    from Cons.prems have "distinct (map fst ds)" by simp
    from Cons.IH [OF this mem] ne show ?thesis
      by (cases p) (auto simp: allocateDonor_fl_def update_conv')
  qed
qed

text \<open>
  Claim C4, as amended. In a ledger whose needs, priorities and budgets are non-negative, the
  amounts that \<open>calculateAllocations\<close> proposes for one donor, computed in doubles, add up
  to at most \<open>allocationBudget \<times> (1 + 2\<^sup>-\<^sup>5\<^sup>3)\<^sup>2 / (1 - 2\<^sup>-\<^sup>5\<^sup>3)\<^sup>n\<close>, where \<open>n\<close> is the number of
  causes the donor has a positive preference for, plus \<open>n \<times> (allocationBudget \<times> (1 + 2\<^sup>-\<^sup>5\<^sup>3)
  + 1) \<times> 2\<^sup>-\<^sup>1\<^sup>0\<^sup>7\<^sup>5\<close> for the shares that underflow: the budget up to the rounding of the total
  and of the shares. A donor without a row proposes nothing. The preference weights need
  no assumption; the donors' keys are distinct, as the keys of a \<open>Map\<close> are.
\<close>

theorem calculateAllocations_within_budget_up_to_rounding:
  assumes "distinct (map fst (donors s))"
      and "nonneg_causes (causes s)"
      and "list_all (\<lambda>(k, d). 0 \<le> allocationBudget d) (donors s)"
      and "(k, donor) \<in> set (donors s)"
  shows "rowTotal (calculateAllocations_fl s) k
           \<le> allocationBudget donor * roundingSlack (length (relevantCauses donor (causes s)))
               + underflowSlack (length (relevantCauses donor (causes s))) (allocationBudget donor)"
proof -
  have row: "map_of (calculateAllocations_fl s) k =
        (if allocationBudget donor \<le> 0 then None else Some (donorRow_fl donor (causes s)))"
    using allocateDonor_fl_fold_mem [OF assms(1) assms(4), of "causes s" "[]"]
    by (simp add: calculateAllocations_fl_def)
  from assms(3,4) have b0: "0 \<le> allocationBudget donor"
    by (auto simp: list_all_iff)
  show ?thesis
  proof (cases "allocationBudget donor \<le> 0")
    case True
    with b0 have z: "allocationBudget donor = 0" by simp
    have "0 \<le> underflowSlack (length (relevantCauses donor (causes s))) 0"
      using denormMin_pos by (simp add: underflowSlack_def)
    with row z show ?thesis by (simp add: rowTotal_def)
  next
    case False
    then have "0 < allocationBudget donor" by simp
    from donorRow_fl_bound [OF assms(2) this] row False
    show ?thesis by (simp add: rowTotal_def)
  qed
qed

theorem calculateAllocations_within_budget_up_to_rounding_witness:
  "distinct (map fst (donors ledgerR)) \<and> nonneg_causes (causes ledgerR)
   \<and> list_all (\<lambda>(k, d). 0 \<le> allocationBudget d) (donors ledgerR)
   \<and> (''dora'', dora) \<in> set (donors ledgerR)
   \<and> rowTotal (calculateAllocations_fl ledgerR) ''dora''
        \<le> allocationBudget dora * roundingSlack (length (relevantCauses dora (causes ledgerR)))
            + underflowSlack (length (relevantCauses dora (causes ledgerR))) (allocationBudget dora)"
proof -
  have h1: "distinct (map fst (donors ledgerR))" by (simp add: ledgerR_def initial_def)
  have h2: "nonneg_causes (causes ledgerR)"
    by (simp add: ledgerR_def initial_def cause1000_def nonneg_causes_def)
  have h3: "list_all (\<lambda>(k, d). 0 \<le> allocationBudget d) (donors ledgerR)"
    by (simp add: ledgerR_def initial_def dora_def)
  have h4: "(''dora'', dora) \<in> set (donors ledgerR)" by (simp add: ledgerR_def initial_def)
  from calculateAllocations_within_budget_up_to_rounding [OF h1 h2 h3 h4] h1 h2 h3 h4
  show ?thesis by simp
qed

text \<open>
  The claim as stated fails. With the budget 1 and the weights 0.1, 0.4 and 0.1 the scores
  are the weights, their total is 0.6, and the three rounded shares
  0.16666666666666669, 0.6666666666666667 and 0.16666666666666669 add up to \<open>1 + 2\<^sup>-\<^sup>5\<^sup>3\<close>.
\<close>

theorem calculateAllocations_over_budget_counterexample:
  "nonneg_causes (causes ledgerR)
   \<and> list_all (\<lambda>(c, w). 0 \<le> w) (preferences dora)
   \<and> map_of (donors ledgerR) ''dora'' = Some dora
   \<and> allocationBudget dora = 1
   \<and> calculateAllocations_fl ledgerR =
       [(''dora'', [(''arts'', 3002399751580331 / 18014398509481984),
                    (''books'', 3002399751580331 / 4503599627370496),
                    (''clinic'', 3002399751580331 / 18014398509481984)])]
   \<and> rowTotal (calculateAllocations_fl ledgerR) ''dora'' = 1 + 1 / 2 ^ 53
   \<and> \<not> rowTotal (calculateAllocations_fl ledgerR) ''dora'' \<le> allocationBudget dora"
proof -
  have 1: "nonneg_causes (causes ledgerR)"
    by (simp add: ledgerR_def initial_def cause1000_def nonneg_causes_def)
  have 2: "list_all (\<lambda>(c, w). 0 \<le> w) (preferences dora)"
    by (simp add: dora_def fl_nonneg)
  have 3: "map_of (donors ledgerR) ''dora'' = Some dora" by (simp add: ledgerR_def initial_def)
  have 4: "allocationBudget dora = 1" by (simp add: dora_def)
  have 5: "calculateAllocations_fl ledgerR =
       [(''dora'', [(''arts'', 3002399751580331 / 18014398509481984),
                    (''books'', 3002399751580331 / 4503599627370496),
                    (''clinic'', 3002399751580331 / 18014398509481984)])]"
    by (simp add: ledgerR_def dora_def cause1000_def initial_def allocation_fl_defs fl_eval
          split del: if_split)
  have 6: "rowTotal (calculateAllocations_fl ledgerR) ''dora'' = 1 + 1 / 2 ^ 53"
    by (simp add: 5 rowTotal_def)
  have 7: "\<not> rowTotal (calculateAllocations_fl ledgerR) ''dora'' \<le> allocationBudget dora"
    by (simp add: 6 4)
  from 1 2 3 4 5 6 7 show ?thesis by blast
qed



section \<open>The commit loop\<close>


lemma update_present_proj:
  "map_of al k = Some v0 \<Longrightarrow> g v = g v0 \<Longrightarrow>
   map (\<lambda>(k, x). (k, g x)) (AList.update k v al) = map (\<lambda>(k, x). (k, g x)) al"
  by (induction al) (auto split: if_splits)

lemma update_present_keys:
  "map_of al k = Some v0 \<Longrightarrow> map fst (AList.update k v al) = map fst al"
  by (induction al) (auto split: if_splits)

lemma map_of_None_keys: "(map_of al k = None) = (k \<notin> set (map fst al))"
  by (simp add: map_of_eq_None_iff)



lemma transfer_fields:
  "donors (fst (transfer A d c a donor0 cause0 (s, ev))) = AList.update d (debit a donor0) (donors s)"
  "causes (fst (transfer A d c a donor0 cause0 (s, ev))) = AList.update c (credit a cause0) (causes s)"
  "councilActive (fst (transfer A d c a donor0 cause0 (s, ev))) = councilActive s"
  "councilInsights (fst (transfer A d c a donor0 cause0 (s, ev))) = councilInsights s"
  "isProcessing (fst (transfer A d c a donor0 cause0 (s, ev))) = isProcessing s"
  "now (fst (transfer A d c a donor0 cause0 (s, ev))) = now s"
  by (simp_all add: transfer_def Let_def)


lemma executePair_cases:
  obtains (skip) "executePair A d st (c, a) = st"
      and "map_of (donors (fst st)) d = None \<or> map_of (causes (fst st)) c = None \<or> a \<le> 0"
  | (exec) donor0 cause0 where "map_of (donors (fst st)) d = Some donor0"
      and "map_of (causes (fst st)) c = Some cause0" and "0 < a"
      and "executePair A d st (c, a) = transfer A d c a donor0 cause0 st"
  by (cases "map_of (donors (fst st)) d"; cases "map_of (causes (fst st)) c"; cases "a \<le> 0")
     (auto simp: executePair_def)

text \<open>An invariant of the loop body holds after the inner loop and after the outer one.\<close>

lemma foldl_executePair_inv:
  assumes "P st"
    and "\<And>st c a donor0 cause0. P st \<Longrightarrow> map_of (donors (fst st)) d = Some donor0 \<Longrightarrow>
           map_of (causes (fst st)) c = Some cause0 \<Longrightarrow> 0 < a \<Longrightarrow>
           P (transfer A d c a donor0 cause0 st)"
  shows "P (foldl (executePair A d) st r)"
  using assms(1)
proof (induction r arbitrary: st)
  case Nil
  then show ?case by simp
next
  case (Cons p r)
  obtain c a where p: "p = (c, a)" by (cases p)
  have "P (executePair A d st (c, a))"
  proof (cases rule: executePair_cases [of A d st c a])
    case skip
    with Cons.prems show ?thesis by simp
  next
    case (exec donor0 cause0)
    with assms(2) [OF Cons.prems] show ?thesis by simp
  qed
  from Cons.IH [OF this] show ?case by (simp add: p)
qed

lemma executeRows_inv:
  assumes "P st"
    and "\<And>st d c a donor0 cause0. P st \<Longrightarrow> map_of (donors (fst st)) d = Some donor0 \<Longrightarrow>
           map_of (causes (fst st)) c = Some cause0 \<Longrightarrow> 0 < a \<Longrightarrow>
           P (transfer A d c a donor0 cause0 st)"
  shows "P (executeRows A st m)"
  using assms(1)
proof (induction m arbitrary: st)
  case Nil
  then show ?case by simp
next
  case (Cons row m)
  obtain d r where row: "row = (d, r)" by (cases row)
  show ?case
  proof (cases "map_of (donors (fst st)) d")
    case None
    with Cons show ?thesis by (simp add: row)
  next
    case (Some donor)
    have "P (foldl (executePair A d) st r)"
      by (rule foldl_executePair_inv [where P = P, OF Cons.prems]) (rule assms(2))
    from Cons.IH [OF this] Some show ?thesis by (simp add: row)
  qed
qed

lemma executeAllocations_alt:
  "executeAllocations s m =
     broadcastSummary (resetReceived (fst (commitBatch s m))) (snd (commitBatch s m))"
  by (simp add: executeAllocations_def split: prod.splits)

subsection \<open>Keys, flags and the frame\<close>

lemma transfer_same_keys:
  assumes "map_of (donors (fst st)) d = Some donor0" and "map_of (causes (fst st)) c = Some cause0"
  shows "same_keys (fst st) (fst (transfer A d c a donor0 cause0 st))"
  using assms by (cases st) (simp add: same_keys_def transfer_fields update_present_keys)

lemma same_keys_refl: "same_keys s s"
  by (simp add: same_keys_def)

lemma same_keys_trans: "same_keys s s' \<Longrightarrow> same_keys s' s'' \<Longrightarrow> same_keys s s''"
  by (simp add: same_keys_def)

lemma executeRows_same_keys: "same_keys (fst st) (fst (executeRows A st m))"
  by (rule executeRows_inv [where P = "\<lambda>st'. same_keys (fst st) (fst st')"])
     (auto intro: same_keys_refl same_keys_trans transfer_same_keys)

lemma foldl_executePair_same_keys: "same_keys (fst st) (fst (foldl (executePair A d) st r))"
  by (rule foldl_executePair_inv [where P = "\<lambda>st'. same_keys (fst st) (fst st')"])
     (auto intro: same_keys_refl same_keys_trans transfer_same_keys)

lemma executePair_same_keys: "same_keys (fst st) (fst (executePair A d st p))"
  using foldl_executePair_same_keys [of st A d "[p]"] by simp


lemma same_keys_known:
  "same_keys s s' \<Longrightarrow> knownDonor s' = knownDonor s"
  "same_keys s s' \<Longrightarrow> knownCause s' = knownCause s"
  by (auto simp: fun_eq_iff knownDonor_def knownCause_def same_keys_def map_of_None_keys)


lemma livePairs_same_keys: "same_keys s s' \<Longrightarrow> livePairs s' m = livePairs s m"
  by (simp add: livePairs_def same_keys_known)

lemma transfer_frame:
  assumes "map_of (donors (fst st)) d = Some donor0" and "map_of (causes (fst st)) c = Some cause0"
  shows "ledger_frame (fst (transfer A d c a donor0 cause0 st)) = ledger_frame (fst st)"
proof -
  have 1: "donor_frame (debit a donor0) = donor_frame donor0"
    by (simp add: donor_frame_def debit_def)
  have 2: "cause_frame (credit a cause0) = cause_frame cause0"
    by (simp add: cause_frame_def credit_def)
  obtain s ev where st: "st = (s, ev)" by (cases st)
  from assms have d: "map_of (donors s) d = Some donor0" and c: "map_of (causes s) c = Some cause0"
    by (simp_all add: st)
  have "map (\<lambda>(k, x). (k, donor_frame x)) (AList.update d (debit a donor0) (donors s))
          = map (\<lambda>(k, x). (k, donor_frame x)) (donors s)"
    by (rule update_present_proj [where g = donor_frame, OF d 1])
  moreover have "map (\<lambda>(k, x). (k, cause_frame x)) (AList.update c (credit a cause0) (causes s))
          = map (\<lambda>(k, x). (k, cause_frame x)) (causes s)"
    by (rule update_present_proj [where g = cause_frame, OF c 2])
  ultimately show ?thesis
    by (simp add: st ledger_frame_def transfer_fields)
qed

lemma executeRows_frame: "ledger_frame (fst (executeRows A st m)) = ledger_frame (fst st)"
  by (rule executeRows_inv [where P = "\<lambda>st'. ledger_frame (fst st') = ledger_frame (fst st)"])
     (simp_all add: transfer_frame)

lemma resetReceived_frame: "ledger_frame (resetReceived s) = ledger_frame s"
  by (simp add: ledger_frame_def resetReceived_def cause_frame_def case_prod_unfold)

lemma broadcastSummary_frame: "ledger_frame (broadcastSummary s ev) = ledger_frame s"
  by (simp add: ledger_frame_def broadcastSummary_def)

lemma executeAllocations_frame: "ledger_frame (executeAllocations s m) = ledger_frame s"
  by (simp add: executeAllocations_def commitBatch_def broadcastSummary_frame resetReceived_frame
        executeRows_frame [of m "(s, [])" m, simplified] split: prod.splits)
     (metis executeRows_frame fst_conv)

lemma conveneCouncil_frame: "ledger_frame (conveneCouncil s m c) = ledger_frame s"
  by (simp add: conveneCouncil_def ledger_frame_def Let_def)

lemma evaluateAllocations_frame: "ledger_frame (evaluateAllocations s) = ledger_frame s"
proof -
  have f: "ledger_frame (x\<lparr>isProcessing := b\<rparr>) = ledger_frame x" for x b
    by (simp add: ledger_frame_def)
  show ?thesis
    by (simp add: evaluateAllocations_def Let_def f conveneCouncil_frame executeAllocations_frame)
qed









subsection \<open>Reachable ledgers\<close>

text \<open>Every message keeps the keys of the ledger maps distinct, as they are in the agent its
  constructor leaves.\<close>

lemma ledger_frame_keys:
  "map fst (fst (ledger_frame s)) = map fst (donors s)"
  "map fst (snd (ledger_frame s)) = map fst (causes s)"
  by (simp_all add: ledger_frame_def comp_def case_prod_unfold)

lemma frame_same_keys: "ledger_frame s' = ledger_frame s \<Longrightarrow> same_keys s s'"
  unfolding same_keys_def using ledger_frame_keys by metis

lemma evaluateAllocations_same_keys: "same_keys s (evaluateAllocations s)"
  by (rule frame_same_keys [OF evaluateAllocations_frame])

lemma same_keys_distinct: "same_keys s s' \<Longrightarrow> distinct_keys s' = distinct_keys s"
  by (simp add: same_keys_def distinct_keys_def)

lemma deliver_distinct_keys:
  assumes "distinct_keys s"
  shows "distinct_keys (deliver s msg)"
proof (cases msg)
  case (Offer_capacity m)
  have "distinct_keys (storeOffer s m)"
    using assms by (simp add: distinct_keys_def storeOffer_def distinct_update)
  then have "distinct_keys (evaluateAllocations (storeOffer s m))"
    by (simp add: same_keys_distinct [OF evaluateAllocations_same_keys])
  then show ?thesis
    by (simp add: Offer_capacity handleCapacityOffer_def Let_def distinct_keys_def)
next
  case (Register_need m)
  have "distinct_keys (evaluateAllocations (s\<lparr>causes := AList.update k c (causes s)\<rparr>))" for k c
    using assms
    by (simp add: same_keys_distinct [OF evaluateAllocations_same_keys])
       (simp add: distinct_keys_def distinct_update)
  then show ?thesis
    by (simp add: Register_need handleNeedRegistration_def Let_def distinct_keys_def)
next
  case (Preference_update m)
  have "distinct_keys (evaluateAllocations (s\<lparr>donors := AList.update k d (donors s)\<rparr>))" for k d
    using assms
    by (simp add: same_keys_distinct [OF evaluateAllocations_same_keys])
       (simp add: distinct_keys_def distinct_update)
  with assms show ?thesis
    by (simp add: Preference_update handlePreferenceUpdate_def split: option.splits)
next
  case (Council_insight m)
  have "distinct_keys (executeAllocations (s\<lparr>councilInsights := xs\<rparr>) mm)" for xs mm
    using assms same_keys_distinct [OF frame_same_keys [OF executeAllocations_frame],
        of "s\<lparr>councilInsights := xs\<rparr>" mm]
    by (simp add: distinct_keys_def)
  then have "distinct_keys ((executeAllocations (s\<lparr>councilInsights := xs\<rparr>) mm)
        \<lparr>councilActive := False, councilInsights := []\<rparr>)" for xs mm
    by (simp add: distinct_keys_def)
  with assms show ?thesis
    by (simp add: Council_insight handleCouncilInsight_def Let_def) (simp add: distinct_keys_def)
qed

lemma initial_distinct_keys: "distinct_keys (initial t)"
  by (simp add: distinct_keys_def initial_def)

subsection \<open>What a commit credits\<close>



subsection \<open>What a proposal holds\<close>





subsection \<open>Stale pairs\<close>

lemma foldl_executePair_live:
  "foldl (executePair A d) st (filter (\<lambda>(c, a). knownCause (fst st) c) r)
     = foldl (executePair A d) st r"
proof (induction r arbitrary: st)
  case Nil
  then show ?case by simp
next
  case (Cons p r)
  obtain c a where p: "p = (c, a)" by (cases p)
  show ?case
  proof (cases "knownCause (fst st) c")
    case False
    then have "executePair A d st (c, a) = st"
      by (simp add: executePair_def knownCause_def split: option.splits)
    with False Cons.IH [of st] show ?thesis by (simp add: p)
  next
    case True
    let ?st' = "executePair A d st (c, a)"
    have "knownCause (fst ?st') = knownCause (fst st)"
      by (rule same_keys_known [OF executePair_same_keys])
    with Cons.IH [of ?st'] True show ?thesis by (simp add: p)
  qed
qed

lemma executeRows_live: "executeRows A st (livePairs (fst st) m) = executeRows A st m"
proof (induction m arbitrary: st)
  case Nil
  then show ?case by (simp add: livePairs_def)
next
  case (Cons row m)
  obtain d r where row: "row = (d, r)" by (cases row)
  have unfold: "livePairs (fst st) ((d, r) # m) =
      (if knownDonor (fst st) d
       then (d, filter (\<lambda>(c, a). knownCause (fst st) c) r) # livePairs (fst st) m
       else livePairs (fst st) m)"
    by (simp add: livePairs_def)
  show ?case
  proof (cases "map_of (donors (fst st)) d")
    case None
    then have "\<not> knownDonor (fst st) d" by (simp add: knownDonor_def)
    with None Cons.IH [of st] show ?thesis by (simp add: row unfold)
  next
    case (Some donor)
    then have k: "knownDonor (fst st) d" by (simp add: knownDonor_def)
    let ?st1 = "foldl (executePair A d) st r"
    have "livePairs (fst ?st1) m = livePairs (fst st) m"
      by (rule livePairs_same_keys [OF foldl_executePair_same_keys])
    with Cons.IH [of ?st1] Some k show ?thesis
      by (simp add: row unfold foldl_executePair_live)
  qed
qed

section \<open>Execution and Audit Unit: the claims\<close>




text \<open>
  Claim C8. A pair whose donor or cause the ledger does not know changes nothing: the state
  and the list of executed events after the pair are the ones before it, so no balance
  moves, no event is recorded and no notification is sent. The commit of a batch is the
  commit of its live pairs alone, every one of them processed as it would be without the
  stale ones, and it always completes. The confidence written into the events is still
  computed from the whole batch \<open>m\<close>.
\<close>

theorem stale_pairs_skipped:
  "executeAllocations s m =
     broadcastSummary (resetReceived (fst (executeRows m (s, []) (livePairs s m))))
                      (snd (executeRows m (s, []) (livePairs s m)))
   \<and> (\<not> knownDonor s d \<or> \<not> knownCause s c \<longrightarrow> executePair m d (s, ev) (c, a) = (s, ev))"
proof -
  have "executeRows m (s, []) (livePairs s m) = executeRows m (s, []) m"
    using executeRows_live [of m "(s, [])" m] by simp
  then have A: "executeAllocations s m =
     broadcastSummary (resetReceived (fst (executeRows m (s, []) (livePairs s m))))
                      (snd (executeRows m (s, []) (livePairs s m)))"
    by (simp add: executeAllocations_alt commitBatch_def)
  have B: "executePair m d (s, ev) (c, a) = (s, ev)" if "\<not> knownDonor s d \<or> \<not> knownCause s c"
    using that by (auto simp: executePair_def knownDonor_def knownCause_def split: option.splits)
  from A B show ?thesis by blast
qed

theorem stale_pairs_skipped_witness:
  "\<not> knownCause ledgerA ''ghost'' \<and> \<not> knownDonor ledgerA ''zed''
   \<and> executePair staleBatch ''alice'' (ledgerA, []) (''ghost'', 5) = (ledgerA, [])
   \<and> executePair staleBatch ''zed'' (ledgerA, []) (''climate'', 7) = (ledgerA, [])
   \<and> livePairs ledgerA staleBatch = [(''alice'', [(''climate'', 10)])]
   \<and> executeAllocations ledgerA staleBatch =
       broadcastSummary
         (resetReceived (fst (executeRows staleBatch (ledgerA, []) [(''alice'', [(''climate'', 10)])])))
         (snd (executeRows staleBatch (ledgerA, []) [(''alice'', [(''climate'', 10)])]))"
proof -
  have h1: "\<not> knownCause ledgerA ''ghost''" by (simp add: knownCause_def ledger_defs)
  have h2: "\<not> knownDonor ledgerA ''zed''" by (simp add: knownDonor_def ledger_defs)
  have l: "livePairs ledgerA staleBatch = [(''alice'', [(''climate'', 10)])]"
    by (simp add: livePairs_def staleBatch_def knownCause_def knownDonor_def ledger_defs)
  from stale_pairs_skipped [of ledgerA staleBatch "''alice''" "''ghost''" "[]" 5]
    stale_pairs_skipped [of ledgerA staleBatch "''zed''" "''climate''" "[]" 7] h1 h2 l
  show ?thesis by simp
qed

text \<open>In exact arithmetic a commit leaves the difference \<open>wallet - allocationBudget\<close> of every
  donor as it was, together with the rest of the frame.\<close>

lemma commit_frame_exact:
  "ledger_frame (executeAllocations s m) = ledger_frame s
   \<and> ledger_frame (fst (commitBatch s m)) = ledger_frame s
   \<and> (map_of (donors s) d = Some donor \<and> map_of (causes s) c = Some cause \<and> 0 < a \<longrightarrow>
        map_of (donors (fst (executePair A d (s, ev) (c, a)))) d
          = Some (donor\<lparr>wallet := wallet donor - a, allocationBudget := allocationBudget donor - a\<rparr>))"
proof -
  have "ledger_frame (fst (commitBatch s m)) = ledger_frame s"
    using executeRows_frame [of m "(s, [])" m] by (simp add: commitBatch_def)
  moreover have "map_of (donors (fst (executePair A d (s, ev) (c, a)))) d
          = Some (donor\<lparr>wallet := wallet donor - a, allocationBudget := allocationBudget donor - a\<rparr>)"
    if "map_of (donors s) d = Some donor \<and> map_of (causes s) c = Some cause \<and> 0 < a"
    using that by (simp add: executePair_def transfer_fields update_conv' debit_def)
  ultimately show ?thesis
    using executeAllocations_frame by blast
qed

subsection \<open>The commit in doubles\<close>













section \<open>Donor profiles: the claims\<close>













section \<open>Council Synthesizer: the claim\<close>

lemma recommendationsFor_spec:
  assumes "\<forall>i \<in> set insights. cellOf (i_recommendations i) d c \<noteq> Some 0"
  shows "recommendationsFor insights d c = recommended_spec insights d c"
  using assms
proof (induction insights)
  case Nil
  then show ?case by (simp add: recommendationsFor_def recommended_spec_def)
next
  case (Cons i insights)
  then have IH: "recommendationsFor insights d c = recommended_spec insights d c" by simp
  from Cons.prems have nz: "cellOf (i_recommendations i) d c \<noteq> Some 0" by simp
  have "recommendationsFor (i # insights) d c
      = (case cellOf (i_recommendations i) d c of None \<Rightarrow> [] | Some v \<Rightarrow> [v])
        @ recommendationsFor insights d c"
    using nz
    by (auto simp: recommendationsFor_def cellOf_def truthy_def or0_def or_empty_def
          split: option.splits)
  with IH show ?case by (simp add: recommended_spec_def)
qed

text \<open>Where no insight recommends exactly 0 for the cell, the code computes the blend of the
  specification.\<close>

lemma synthesizeCell_spec:
  assumes "\<forall>i \<in> set insights. cellOf (i_recommendations i) d c \<noteq> Some 0"
  shows "synthesizeCell insights d c orig = blend_spec insights d c orig"
  by (simp add: synthesizeCell_def blend_spec_def Let_def recommendationsFor_spec [OF assms]
        foldl_add_sum_list [where f = "\<lambda>x. x", simplified])

text \<open>
  Claim C3. The filter of \<open>synthesizeCouncilDecision\<close> tests the recommended value for
  truthiness, so an insight that recommends 0 for a cell is dropped like one that omits the
  cell. For the original 10 and the recommendations 0, 20 and 20 the code yields
  \<open>0.7 \<times> 20 + 3 = 17\<close>, where the mean of the three recommendations gives
  \<open>0.7 \<times> 40/3 + 3 = 37/3\<close>.
\<close>

theorem synthesize_drops_zero_recommendation:
  "synthesizeCouncilDecision [(''alice'', [(''climate'', 10)])]
       [advisor ''Ethics-Agent'' 0, advisor ''Impact-Agent'' 20, advisor ''Community-Agent'' 20]
     = [(''alice'', [(''climate'', 17)])]
   \<and> synthesis_spec [(''alice'', [(''climate'', 10)])]
       [advisor ''Ethics-Agent'' 0, advisor ''Impact-Agent'' 20, advisor ''Community-Agent'' 20]
     = [(''alice'', [(''climate'', 37 / 3)])]"
  by (simp add: synthesizeCouncilDecision_def synthesizeCell_def recommendationsFor_def advisor_def
        truthy_def or0_def or_empty_def synthesis_spec_def blend_spec_def recommended_spec_def
        cellOf_def Let_def)

section \<open>Escalation Controller: the claims\<close>










end
